theory Spec2Isabelle
  imports Main "HOL-Library.Word"
begin

unbundle bit_operations_syntax

section \<open>The klink indicator: data model\<close>

text \<open>
  Shallow embedding of \<^verbatim>\<open>klink_indicator.c\<close>. The C globals
  (\<^verbatim>\<open>indicator_state\<close>, the function-local statics \<^verbatim>\<open>last_bits\<close> and
  \<^verbatim>\<open>led_timer_steps\<close>) are the fields of one record that every operation takes and
  returns. Two more fields observe the effects: \<open>led_log\<close> lists the calls made to the
  LED driver, in order, and \<open>color_log\<close> lists the arguments of the calls of
  \<^verbatim>\<open>set_indicator_color\<close>, in order.
\<close>

type_synonym u8 = "8 word"
type_synonym u16 = "16 word"
type_synonym u32 = "32 word"

record indicator_state_t =
  keylock :: u8
  connection :: u8
  active_device :: u8
  battery :: u8
  flash_times :: u8

text \<open>A call of the LED driver: \<^verbatim>\<open>led_on(led_dev, i)\<close> or \<^verbatim>\<open>led_off(led_dev, i)\<close>.\<close>

datatype led_call = Led_on u8 | Led_off u8

record machine =
  indicator_state :: indicator_state_t
  last_bits :: u8
  led_timer_steps :: u16
  led_log :: "led_call list"
  color_log :: "u8 list"

text \<open>Static storage is zero-initialised in C; nothing has been written to the LEDs yet.\<close>

definition zero_state :: indicator_state_t where
  "zero_state = \<lparr>keylock = 0, connection = 0, active_device = 0, battery = 0, flash_times = 0\<rparr>"

definition boot :: machine where
  "boot = \<lparr>indicator_state = zero_state, last_bits = 0, led_timer_steps = 0,
            led_log = [], color_log = []\<rparr>"

definition CAPSLOCK_BIT :: u8 where
  "CAPSLOCK_BIT = push_bit 1 1"

section \<open>The colour setter\<close>

text \<open>
  The table \<^verbatim>\<open>led_idx\<close> comes from the devicetree and is not in the source file: it
  is a parameter, a function from the position 0, 1, 2 (red, green, blue) to the index
  of the LED in the driver.
\<close>

definition led_on :: "u8 \<Rightarrow> machine \<Rightarrow> machine" where
  "led_on i m = m\<lparr>led_log := led_log m @ [Led_on i]\<rparr>"

definition led_off :: "u8 \<Rightarrow> machine \<Rightarrow> machine" where
  "led_off i m = m\<lparr>led_log := led_log m @ [Led_off i]\<rparr>"

text \<open>The body of the loop \<^verbatim>\<open>for (pos = 0; pos < 3; pos++)\<close>.\<close>

definition set_channel :: "(nat \<Rightarrow> u8) \<Rightarrow> u8 \<Rightarrow> machine \<Rightarrow> nat \<Rightarrow> machine" where
  "set_channel led_idx bits m pos =
     (if bits AND push_bit pos 1 \<noteq> 0 then led_on (led_idx pos) m else led_off (led_idx pos) m)"

definition set_indicator_color :: "(nat \<Rightarrow> u8) \<Rightarrow> u8 \<Rightarrow> machine \<Rightarrow> machine" where
  "set_indicator_color led_idx bits m0 =
     (let m = m0\<lparr>color_log := color_log m0 @ [bits]\<rparr> in
      if bits \<noteq> last_bits m
      then (foldl (set_channel led_idx bits) m [0 ..< 3])\<lparr>last_bits := bits\<rparr>
      else m)"

section \<open>The listeners\<close>

text \<open>
  What a listener reads from the rest of the firmware (the lock bits, the index of the
  active profile, whether it is connected) is an argument.
\<close>

definition get_lock_indicators :: "u8 \<Rightarrow> indicator_state_t \<Rightarrow> indicator_state_t" where
  "get_lock_indicators state st = st\<lparr>keylock := state\<rparr>"

definition ble_active_profile_update :: "u8 \<Rightarrow> bool \<Rightarrow> indicator_state_t \<Rightarrow> indicator_state_t" where
  "ble_active_profile_update profile_index is_connected st =
     (if profile_index > 3 then st
      else let st1 = st\<lparr>active_device := profile_index\<rparr> in
        if is_connected
        then st1\<lparr>connection := 2, flash_times := 3 * 4\<rparr>
        else st1\<lparr>connection := 1, flash_times := 15 * 4\<rparr>)"

text \<open>\<^verbatim>\<open>zmk_key_t\<close> is a 32-bit unsigned integer.\<close>

definition zmk_handle_keycode_user ::
    "u32 \<Rightarrow> u8 \<Rightarrow> bool \<Rightarrow> indicator_state_t \<Rightarrow> indicator_state_t" where
  "zmk_handle_keycode_user key profile_index is_connected st =
     (if key = 0xAB then ble_active_profile_update profile_index is_connected st else st)"

definition led_battery_listener_cb :: "u8 \<Rightarrow> indicator_state_t \<Rightarrow> indicator_state_t" where
  "led_battery_listener_cb battery_level st = st\<lparr>battery := battery_level\<rparr>"

definition klink_indicator_init_thread :: "indicator_state_t \<Rightarrow> indicator_state_t" where
  "klink_indicator_init_thread st = st\<lparr>connection := 1, battery := 111\<rparr>"

section \<open>The sequencer\<close>

definition profile_color_bits :: "u8 list" where
  "profile_color_bits = [0b011, 0b110, 0b101]"

text \<open>
  One iteration of \<^verbatim>\<open>while (true)\<close> in \<^verbatim>\<open>led_process_thread\<close>, after
  \<^verbatim>\<open>k_sleep\<close> has returned. \<open>Return\<close> is the \<^verbatim>\<open>return\<close> that leaves the
  thread function, \<open>Continue\<close> the end of the loop body. The argument \<open>addr_any\<close> is
  the answer of \<^verbatim>\<open>bt_addr_le_eq(zmk_ble_active_profile_addr(), BT_ADDR_LE_ANY)\<close>
  when the iteration asks.
\<close>

datatype 'a outcome = Continue (machine_of: 'a) | Return (machine_of: 'a)

definition set_flash_times :: "u8 \<Rightarrow> machine \<Rightarrow> machine" where
  "set_flash_times v m = m\<lparr>indicator_state := (indicator_state m)\<lparr>flash_times := v\<rparr>\<rparr>"

definition set_connection :: "u8 \<Rightarrow> machine \<Rightarrow> machine" where
  "set_connection v m = m\<lparr>indicator_state := (indicator_state m)\<lparr>connection := v\<rparr>\<rparr>"

text \<open>The \<^verbatim>\<open>switch ((led_timer_steps >> 4) & 0x3)\<close>.\<close>

definition ble_phase :: "(nat \<Rightarrow> u8) \<Rightarrow> bool \<Rightarrow> u8 \<Rightarrow> machine \<Rightarrow> machine" where
  "ble_phase led_idx addr_any color_bits m =
     (let sel = drop_bit 4 (led_timer_steps m) AND 0x3 in
      if sel = 0 then set_indicator_color led_idx 0 m
      else if sel = 1 then set_indicator_color led_idx color_bits m
      else if sel = 2 then
        (if connection (indicator_state m) \<noteq> 2 then set_indicator_color led_idx 0 m else m)
      else if sel = 3 then
        (if connection (indicator_state m) \<noteq> 2
         then (if addr_any then set_indicator_color led_idx 0b001 m
               else set_indicator_color led_idx 0b100 m)
         else m)
      else m)"

text \<open>The branch \<^verbatim>\<open>if (indicator_state.connection > 0)\<close>.\<close>

definition ble_mode :: "(nat \<Rightarrow> u8) \<Rightarrow> bool \<Rightarrow> machine \<Rightarrow> machine outcome" where
  "ble_mode led_idx addr_any m =
     (if active_device (indicator_state m) \<ge> 3 then Return m
      else if led_timer_steps m AND 0xf = 0xf then
        (let m1 = set_flash_times (flash_times (indicator_state m) - 1) m;
             color_bits = profile_color_bits ! unat (active_device (indicator_state m1));
             m2 = ble_phase led_idx addr_any color_bits m1
         in Continue (if flash_times (indicator_state m2) = 0 then set_connection 0 m2 else m2))
      else Continue m)"

text \<open>The branch \<^verbatim>\<open>else if (indicator_state.battery < 10)\<close>.\<close>

definition battery_mode :: "(nat \<Rightarrow> u8) \<Rightarrow> machine \<Rightarrow> machine" where
  "battery_mode led_idx m =
     (if led_timer_steps m AND 0x1f = 0xf then set_indicator_color led_idx 0b001 m
      else if led_timer_steps m AND 0x1f = 0x1f then set_indicator_color led_idx 0 m
      else m)"

text \<open>The last branch.\<close>

definition lock_mode :: "(nat \<Rightarrow> u8) \<Rightarrow> machine \<Rightarrow> machine" where
  "lock_mode led_idx m =
     (if keylock (indicator_state m) AND CAPSLOCK_BIT \<noteq> 0
      then set_indicator_color led_idx 0b101 m
      else set_indicator_color led_idx 0 m)"

definition led_process_iter :: "(nat \<Rightarrow> u8) \<Rightarrow> bool \<Rightarrow> machine \<Rightarrow> machine outcome" where
  "led_process_iter led_idx addr_any m0 =
     (let m = m0\<lparr>led_timer_steps := led_timer_steps m0 + 1\<rparr> in
      if connection (indicator_state m) > 0 then ble_mode led_idx addr_any m
      else if battery (indicator_state m) < 10 then Continue (battery_mode led_idx m)
      else Continue (lock_mode led_idx m))"

text \<open>
  The loop \<^verbatim>\<open>while (true)\<close> itself. It has no exit but the \<^verbatim>\<open>return\<close>, so it
  is run for as many wake-ups as the list has elements: the list gives, for each
  wake-up, the answer of the address comparison. \<open>Continue\<close> is the thread still
  looping after the last of them, \<open>Return\<close> the thread function having returned.
\<close>

fun led_process_thread :: "(nat \<Rightarrow> u8) \<Rightarrow> bool list \<Rightarrow> machine \<Rightarrow> machine outcome" where
  "led_process_thread led_idx [] m = Continue m"
| "led_process_thread led_idx (addr_any # rest) m =
     (case led_process_iter led_idx addr_any m of
        Continue m' \<Rightarrow> led_process_thread led_idx rest m'
      | Return m' \<Rightarrow> Return m')"

section \<open>The firmware as a sequence of events\<close>

text \<open>
  The threads and the listeners share the state. An event is one of them running to
  completion: a wake-up of the sequencer (one iteration of its loop), a notification
  delivered to a listener, or the start-up thread. \<open>led_exited\<close> records that
  \<^verbatim>\<open>led_process_thread\<close> has returned: from then on a wake-up does nothing.
\<close>

datatype event =
    Tick bool
  | Hid_indicators_changed u8
  | Ble_active_profile_changed u8 bool
  | Keycode_state_changed u32 u8 bool
  | Battery_state_changed u8
  | Init_thread

record system =
  mach :: machine
  led_exited :: bool

definition on_state :: "(indicator_state_t \<Rightarrow> indicator_state_t) \<Rightarrow> system \<Rightarrow> system" where
  "on_state f s = s\<lparr>mach := (mach s)\<lparr>indicator_state := f (indicator_state (mach s))\<rparr>\<rparr>"

fun deliver :: "(nat \<Rightarrow> u8) \<Rightarrow> system \<Rightarrow> event \<Rightarrow> system" where
  "deliver led_idx s (Tick addr_any) =
     (if led_exited s then s
      else case led_process_iter led_idx addr_any (mach s) of
             Continue m \<Rightarrow> s\<lparr>mach := m\<rparr>
           | Return m \<Rightarrow> s\<lparr>mach := m, led_exited := True\<rparr>)"
| "deliver led_idx s (Hid_indicators_changed state) = on_state (get_lock_indicators state) s"
| "deliver led_idx s (Ble_active_profile_changed profile_index is_connected) =
     on_state (ble_active_profile_update profile_index is_connected) s"
| "deliver led_idx s (Keycode_state_changed key profile_index is_connected) =
     on_state (zmk_handle_keycode_user key profile_index is_connected) s"
| "deliver led_idx s (Battery_state_changed battery_level) =
     on_state (led_battery_listener_cb battery_level) s"
| "deliver led_idx s Init_thread = on_state klink_indicator_init_thread s"

definition run :: "(nat \<Rightarrow> u8) \<Rightarrow> event list \<Rightarrow> system \<Rightarrow> system" where
  "run led_idx evs s = foldl (deliver led_idx) s evs"

definition power_on :: system where
  "power_on = \<lparr>mach = boot, led_exited = False\<rparr>"

section \<open>Observations used to state the properties\<close>

text \<open>The driver call that \<^verbatim>\<open>set_indicator_color(bits)\<close> makes for the channel \<open>pos\<close>.\<close>

definition led_of :: "(nat \<Rightarrow> u8) \<Rightarrow> u8 \<Rightarrow> nat \<Rightarrow> led_call" where
  "led_of led_idx bits pos =
     (if bits AND push_bit pos 1 \<noteq> 0 then Led_on (led_idx pos) else Led_off (led_idx pos))"

text \<open>The driver calls made between the machine \<open>m\<close> and the later machine \<open>m'\<close>.\<close>

definition calls_made :: "machine \<Rightarrow> machine \<Rightarrow> led_call list" where
  "calls_made m m' = drop (length (led_log m)) (led_log m')"

fun channel_of :: "led_call \<Rightarrow> u8" where
  "channel_of (Led_on i) = i"
| "channel_of (Led_off i) = i"

definition writes_to :: "u8 \<Rightarrow> led_call list \<Rightarrow> nat" where
  "writes_to i cs = length (filter (\<lambda>c. channel_of c = i) cs)"

text \<open>
  The BLE pattern in the words of the specification: the palette of the three slots and
  the colour-setter calls of the four phases, for the connection state \<open>conn\<close>, the
  slot \<open>dev\<close> and the answer \<open>addr_any\<close> of the address comparison.
\<close>

definition slot_color :: "u8 \<Rightarrow> u8" where
  "slot_color dev = (if dev = 0 then 0b011 else if dev = 1 then 0b110 else 0b101)"

definition ble_pattern :: "u8 \<Rightarrow> u8 \<Rightarrow> bool \<Rightarrow> u16 \<Rightarrow> u8 list" where
  "ble_pattern conn dev addr_any phase =
     (if phase = 0 then [0]
      else if phase = 1 then [slot_color dev]
      else if phase = 2 then (if conn \<noteq> 2 then [0] else [])
      else (if conn \<noteq> 2 then [if addr_any then 0b001 else 0b100] else []))"

text \<open>The same machine with other values of \<open>battery\<close> and \<open>keylock\<close>.\<close>

definition with_battery_keylock :: "u8 \<Rightarrow> u8 \<Rightarrow> machine \<Rightarrow> machine" where
  "with_battery_keylock b k m =
     m\<lparr>indicator_state := (indicator_state m)\<lparr>battery := b, keylock := k\<rparr>\<rparr>"

text \<open>
  How many of the next \<open>n\<close> iterations of the sequencer pass the test
  \<^verbatim>\<open>(led_timer_steps & 0xf) == 0xf\<close>, when the counter is \<open>t\<close> before the first.
\<close>

definition boundaries :: "u16 \<Rightarrow> nat \<Rightarrow> nat" where
  "boundaries t n = length (filter (\<lambda>i. (t + of_nat i) AND 0xf = 0xf) [1 ..< Suc n])"

text \<open>
  The number of boundaries a countdown that starts at \<open>f\<close> lasts: the counter is
  decremented first and compared with 0 afterwards, so a countdown that starts at 0
  wraps to 255 and lasts 256 boundaries.
\<close>

definition flash_budget :: "u8 \<Rightarrow> nat" where
  "flash_budget f = (if f = 0 then 256 else unat f)"

text \<open>
  The low-battery blink in the words of the specification: red at offset 15 of a
  window of 32 ticks, off at offset 31, nothing on the other ticks.
\<close>

definition battery_pattern :: "u16 \<Rightarrow> u8 list" where
  "battery_pattern t = (if t AND 0x1f = 0xf then [0b001] else if t AND 0x1f = 0x1f then [0] else [])"

text \<open>A machine with the given fields, nothing rendered and nothing logged yet.\<close>

definition machine_at :: "u8 \<Rightarrow> u8 \<Rightarrow> u8 \<Rightarrow> u8 \<Rightarrow> u8 \<Rightarrow> u16 \<Rightarrow> machine" where
  "machine_at k c d b f t =
     \<lparr>indicator_state = \<lparr>keylock = k, connection = c, active_device = d, battery = b,
                          flash_times = f\<rparr>,
      last_bits = 0, led_timer_steps = t, led_log = [], color_log = []\<rparr>"

text \<open>
  The state after a boot as the thread definitions schedule it: the sequencer starts
  100 ms after boot and wakes every 20 ms, the start-up thread runs 200 ms after boot,
  so the first iterations of the sequencer come before it: five of them here. No
  listener has run yet.
\<close>

definition booted :: "(nat \<Rightarrow> u8) \<Rightarrow> system" where
  "booted led_idx =
     run led_idx [Tick True, Tick True, Tick True, Tick True, Tick True, Init_thread] power_on"




section \<open>The colour setter writes all three channels or none\<close>

lemma set_channel_log:
  "set_channel led_idx bits m pos = m\<lparr>led_log := led_log m @ [led_of led_idx bits pos]\<rparr>"
  by (simp add: set_channel_def led_of_def led_on_def led_off_def)

lemma upt_0_3: "[0 ..< 3] = [0, 1, 2::nat]"
  by (simp add: upt_rec)

lemma set_indicator_color_same:
  "last_bits m = bits \<Longrightarrow>
   set_indicator_color led_idx bits m = m\<lparr>color_log := color_log m @ [bits]\<rparr>"
  by (simp add: set_indicator_color_def Let_def)

lemma set_indicator_color_diff:
  "last_bits m \<noteq> bits \<Longrightarrow>
   set_indicator_color led_idx bits m =
     m\<lparr>last_bits := bits,
       led_log := led_log m @ [led_of led_idx bits 0, led_of led_idx bits 1, led_of led_idx bits 2],
       color_log := color_log m @ [bits]\<rparr>"
  by (auto simp add: set_indicator_color_def Let_def upt_0_3 set_channel_log)

lemma set_indicator_color_fields [simp]:
  "indicator_state (set_indicator_color led_idx bits m) = indicator_state m"
  "led_timer_steps (set_indicator_color led_idx bits m) = led_timer_steps m"
  "last_bits (set_indicator_color led_idx bits m) = bits"
  "color_log (set_indicator_color led_idx bits m) = color_log m @ [bits]"
  by (cases "last_bits m = bits"; simp add: set_indicator_color_same set_indicator_color_diff)+

lemma set_indicator_color_led_log:
  "led_log (set_indicator_color led_idx bits m) =
     led_log m @ (if last_bits m = bits then []
                  else [led_of led_idx bits 0, led_of led_idx bits 1, led_of led_idx bits 2])"
  by (cases "last_bits m = bits"; simp add: set_indicator_color_same set_indicator_color_diff)

text \<open>
  C3, as the specification states it, fails. After \<^verbatim>\<open>set_indicator_color(0b001)\<close>
  the call \<^verbatim>\<open>set_indicator_color(0b011)\<close> has a different mask, bit 0 (red) is the
  same in both masks, and yet the second call writes the red channel once: the
  claim promises no write there.
\<close>

theorem set_indicator_color_unchanged_channel_counterexample:
  "(1::u8) \<noteq> 3 \<and> (1::u8) AND push_bit 0 1 = 3 AND push_bit 0 1 \<and>
   writes_to (of_nat 0)
     (calls_made (set_indicator_color of_nat 1 boot)
        (set_indicator_color of_nat 3 (set_indicator_color of_nat 1 boot))) = 1"
  by (simp add: calls_made_def set_indicator_color_led_log led_of_def writes_to_def boot_def)

text \<open>
  C3, amended. For masks \<open>m1 \<noteq> m2\<close>, calling the colour setter with \<open>m1\<close> and then
  with \<open>m2\<close> makes, in the second call, exactly one driver call for each of the three
  channels, in the order red, green, blue: on when the channel's bit is set in \<open>m2\<close>,
  off otherwise, also for a channel whose bit is the same in \<open>m1\<close> and \<open>m2\<close>. Calling
  it twice in a row with the same mask makes no driver call the second time.
\<close>

theorem set_indicator_color_writes:
  "(m1 \<noteq> m2 \<longrightarrow>
      calls_made (set_indicator_color led_idx m1 m)
        (set_indicator_color led_idx m2 (set_indicator_color led_idx m1 m)) =
      [led_of led_idx m2 0, led_of led_idx m2 1, led_of led_idx m2 2]) \<and>
   calls_made (set_indicator_color led_idx m1 m)
     (set_indicator_color led_idx m1 (set_indicator_color led_idx m1 m)) = []"
  by (simp add: calls_made_def set_indicator_color_led_log)

theorem set_indicator_color_writes_witness:
  "(1::u8) \<noteq> 3 \<and>
   calls_made (set_indicator_color of_nat 1 boot)
     (set_indicator_color of_nat 3 (set_indicator_color of_nat 1 boot)) =
   [Led_on 0, Led_on 1, Led_off 2] \<and>
   calls_made (set_indicator_color of_nat 1 boot)
     (set_indicator_color of_nat 1 (set_indicator_color of_nat 1 boot)) = []"
  using set_indicator_color_writes [of 1 3 of_nat boot]
  by (simp add: led_of_def)

section \<open>One iteration of the sequencer\<close>

lemma u16_le3_cases: "(x::u16) \<le> 3 \<Longrightarrow> x = 0 \<or> x = 1 \<or> x = 2 \<or> x = 3"
proof -
  assume "x \<le> 3"
  then have "unat x \<le> 3" by (simp add: word_le_nat_alt)
  then have "unat x = 0 \<or> unat x = 1 \<or> unat x = 2 \<or> unat x = 3" by arith
  then have "unat x = unat (0::u16) \<or> unat x = unat (1::u16) \<or>
             unat x = unat (2::u16) \<or> unat x = unat (3::u16)"
    by simp
  then show ?thesis by (simp only: word_unat_eq_iff)
qed

lemma phase_cases:
  "drop_bit 4 (t::u16) AND 3 = 0 \<or> drop_bit 4 t AND 3 = 1 \<or>
   drop_bit 4 t AND 3 = 2 \<or> drop_bit 4 t AND 3 = 3"
  by (rule u16_le3_cases) (rule word_and_le1)

lemma u8_less3_cases: "(d::u8) < 3 \<Longrightarrow> d = 0 \<or> d = 1 \<or> d = 2"
proof -
  assume "d < 3"
  then have "unat d < 3" by (simp add: word_less_nat_alt)
  then have "unat d = 0 \<or> unat d = 1 \<or> unat d = 2" by arith
  then have "unat d = unat (0::u8) \<or> unat d = unat (1::u8) \<or> unat d = unat (2::u8)"
    by simp
  then show ?thesis by (simp only: word_unat_eq_iff)
qed

lemma palette: "d < 3 \<Longrightarrow> profile_color_bits ! unat d = slot_color d"
  by (drule u8_less3_cases) (auto simp add: profile_color_bits_def slot_color_def)

lemma ble_phase_fields [simp]:
  "indicator_state (ble_phase led_idx a cb m) = indicator_state m"
  "led_timer_steps (ble_phase led_idx a cb m) = led_timer_steps m"
  by (simp_all add: ble_phase_def Let_def)

lemma ble_phase_color_log:
  "color_log (ble_phase led_idx a cb m) =
     color_log m @ (let p = drop_bit 4 (led_timer_steps m) AND 3; c = connection (indicator_state m) in
        if p = 0 then [0] else if p = 1 then [cb]
        else if p = 2 then (if c \<noteq> 2 then [0] else [])
        else (if c \<noteq> 2 then [if a then 1 else 4] else []))"
  using phase_cases [of "led_timer_steps m"]
  by (auto simp add: ble_phase_def Let_def)


lemma iter_idle:
  "connection (indicator_state m) = 0 \<Longrightarrow>
   led_process_iter led_idx a m =
     Continue (if battery (indicator_state m) < 10
               then battery_mode led_idx (m\<lparr>led_timer_steps := led_timer_steps m + 1\<rparr>)
               else lock_mode led_idx (m\<lparr>led_timer_steps := led_timer_steps m + 1\<rparr>))"
  by (simp add: led_process_iter_def Let_def)

lemma iter_ble:
  "connection (indicator_state m) \<noteq> 0 \<Longrightarrow>
   led_process_iter led_idx a m = ble_mode led_idx a (m\<lparr>led_timer_steps := led_timer_steps m + 1\<rparr>)"
  by (simp add: led_process_iter_def Let_def word_gt_0)

lemma iter_ble_exit:
  "connection (indicator_state m) \<noteq> 0 \<Longrightarrow> 3 \<le> active_device (indicator_state m) \<Longrightarrow>
   led_process_iter led_idx a m = Return (m\<lparr>led_timer_steps := led_timer_steps m + 1\<rparr>)"
  by (simp add: iter_ble ble_mode_def)

lemma iter_ble_quiet:
  "connection (indicator_state m) \<noteq> 0 \<Longrightarrow> active_device (indicator_state m) < 3 \<Longrightarrow>
   (led_timer_steps m + 1) AND 0xf \<noteq> 0xf \<Longrightarrow>
   led_process_iter led_idx a m = Continue (m\<lparr>led_timer_steps := led_timer_steps m + 1\<rparr>)"
  by (simp add: iter_ble ble_mode_def not_le)

lemma iter_ble_boundary:
  assumes "connection (indicator_state m) \<noteq> 0" "active_device (indicator_state m) < 3"
    "(led_timer_steps m + 1) AND 0xf = 0xf"
  shows "\<exists>m'. led_process_iter led_idx a m = Continue m' \<and>
     indicator_state m' = (indicator_state m)
       \<lparr>connection := (if flash_times (indicator_state m) - 1 = 0 then 0
                        else connection (indicator_state m)),
        flash_times := flash_times (indicator_state m) - 1\<rparr> \<and>
     led_timer_steps m' = led_timer_steps m + 1 \<and>
     color_log m' = color_log m @
       ble_pattern (connection (indicator_state m)) (active_device (indicator_state m)) a
         (drop_bit 4 (led_timer_steps m + 1) AND 3)"
  using assms
  by (simp add: iter_ble ble_mode_def not_le Let_def set_flash_times_def set_connection_def
      ble_phase_color_log ble_pattern_def palette)


lemma unat_of_nat_u8: "n < 256 \<Longrightarrow> unat (of_nat n :: u8) = n"
  by (simp add: unat_of_nat)

lemma budget_not_reached:
  "Suc B < flash_budget f \<Longrightarrow> f - of_nat B - 1 \<noteq> 0"
proof
  assume lt: "Suc B < flash_budget f" and z: "f - of_nat B - 1 = 0"
  from z have f: "f = of_nat (Suc B)" by (simp add: diff_eq_eq add.commute)
  have "unat f < 256" using unsigned_less [of f, where 'a = nat] by simp
  then have "flash_budget f \<le> 256" by (simp add: flash_budget_def)
  with lt have "Suc B < 256" by simp
  then have u: "unat (of_nat (Suc B) :: u8) = Suc B" by (rule unat_of_nat_u8)
  show False
  proof (cases "f = 0")
    case True
    with f u show False by (metis Zero_not_Suc unat_0 unsigned_0)
  next
    case False
    then have "flash_budget f = unat f" by (simp add: flash_budget_def)
    with lt f u show False by simp
  qed
qed

lemma budget_reached:
  "Suc B = flash_budget f \<Longrightarrow> f - of_nat B - 1 = 0"
proof -
  assume eq: "Suc B = flash_budget f"
  have "of_nat (flash_budget f) = f"
    by (simp add: flash_budget_def)
  with eq have "of_nat (Suc B) = f" by simp
  then show ?thesis by (simp add: diff_eq_eq add.commute)
qed

lemma boundaries_Suc:
  "boundaries t (Suc n) =
     boundaries t n + (if (t + of_nat n + 1) AND 0xf = 0xf then 1 else 0)"
  by (simp add: boundaries_def ac_simps)

lemma run_snoc: "run led_idx (evs @ [e]) s = deliver led_idx (run led_idx evs s) e"
  by (simp add: run_def)

lemma deliver_tick_idle:
  "connection (indicator_state (mach s)) = 0 \<Longrightarrow>
   connection (indicator_state (mach (deliver led_idx s (Tick a)))) = 0"
  by (simp add: iter_idle battery_mode_def lock_mode_def)


lemma deliver_tick_ble:
  assumes "\<not> led_exited s" "connection (indicator_state (mach s)) \<noteq> 0"
    "active_device (indicator_state (mach s)) < 3"
  shows "\<not> led_exited (deliver led_idx s (Tick a)) \<and>
    led_timer_steps (mach (deliver led_idx s (Tick a))) = led_timer_steps (mach s) + 1 \<and>
    indicator_state (mach (deliver led_idx s (Tick a))) =
      (if (led_timer_steps (mach s) + 1) AND 0xf = 0xf
       then (indicator_state (mach s))
         \<lparr>connection := (if flash_times (indicator_state (mach s)) - 1 = 0 then 0
                          else connection (indicator_state (mach s))),
          flash_times := flash_times (indicator_state (mach s)) - 1\<rparr>
       else indicator_state (mach s))"
proof (cases "(led_timer_steps (mach s) + 1) AND 0xf = 0xf")
  case True
  from iter_ble_boundary [OF assms(2,3) True, of led_idx a]
  obtain m' where "led_process_iter led_idx a (mach s) = Continue m'"
    and "indicator_state m' = (indicator_state (mach s))
         \<lparr>connection := (if flash_times (indicator_state (mach s)) - 1 = 0 then 0
                          else connection (indicator_state (mach s))),
          flash_times := flash_times (indicator_state (mach s)) - 1\<rparr>"
    and "led_timer_steps m' = led_timer_steps (mach s) + 1"
    by blast
  with assms(1) True show ?thesis by simp
next
  case False
  with assms show ?thesis by (simp add: iter_ble_quiet)
qed

lemma ble_countdown:
  assumes "\<not> led_exited s" "connection (indicator_state (mach s)) \<noteq> 0"
    "active_device (indicator_state (mach s)) < 3"
  shows "(boundaries (led_timer_steps (mach s)) (length as) < flash_budget (flash_times (indicator_state (mach s))) \<longrightarrow>
      \<not> led_exited (run led_idx (map Tick as) s) \<and>
      led_timer_steps (mach (run led_idx (map Tick as) s)) = led_timer_steps (mach s) + of_nat (length as) \<and>
      indicator_state (mach (run led_idx (map Tick as) s)) =
        (indicator_state (mach s))\<lparr>flash_times := flash_times (indicator_state (mach s))
            - of_nat (boundaries (led_timer_steps (mach s)) (length as))\<rparr>) \<and>
    (flash_budget (flash_times (indicator_state (mach s))) \<le> boundaries (led_timer_steps (mach s)) (length as) \<longrightarrow>
      connection (indicator_state (mach (run led_idx (map Tick as) s))) = 0)"
proof (induction as rule: rev_induct)
  case Nil
  have "0 < flash_budget (flash_times (indicator_state (mach s)))"
    by (simp add: flash_budget_def unat_gt_0)
  with assms(1) show ?case by (simp add: run_def boundaries_def)
next
  case (snoc a as)
  let ?t = "led_timer_steps (mach s)" and ?f = "flash_times (indicator_state (mach s))"
  let ?st = "indicator_state (mach s)"
  let ?B = "boundaries ?t (length as)" and ?s' = "run led_idx (map Tick as) s"
  let ?hit = "(?t + of_nat (length as) + 1) AND 0xf = 0xf"
  let ?s'' = "deliver led_idx ?s' (Tick a)"
  have run: "run led_idx (map Tick (as @ [a])) s = ?s''"
    by (simp add: run_snoc)
  have B: "boundaries ?t (length (as @ [a])) = ?B + (if ?hit then 1 else 0)"
    by (simp add: boundaries_Suc)
  have tl: "?t + of_nat (length as) + 1 = ?t + of_nat (length (as @ [a]))"
    by (simp add: ac_simps)
  have fl: "?f - of_nat ?B - 1 = ?f - of_nat (?B + 1)"
    by (simp add: diff_diff_eq)
  show ?case
  proof (cases "?B < flash_budget ?f")
    case False
    with snoc have "connection (indicator_state (mach ?s')) = 0" by simp
    then have "connection (indicator_state (mach ?s'')) = 0"
      by (rule deliver_tick_idle)
    moreover from False B have "\<not> boundaries ?t (length (as @ [a])) < flash_budget ?f"
      by simp
    ultimately show ?thesis unfolding run by simp
  next
    case True
    with snoc have ex: "\<not> led_exited ?s'"
      and tm: "led_timer_steps (mach ?s') = ?t + of_nat (length as)"
      and st: "indicator_state (mach ?s') = ?st\<lparr>flash_times := ?f - of_nat ?B\<rparr>"
      by simp_all
    from st assms have c: "connection (indicator_state (mach ?s')) \<noteq> 0"
      and d: "active_device (indicator_state (mach ?s')) < 3" by simp_all
    note step = deliver_tick_ble [OF ex c d, of led_idx a, unfolded tm]
    from step have e2: "\<not> led_exited ?s''" by (rule conjunct1)
    from step have t2: "led_timer_steps (mach ?s'') = ?t + of_nat (length (as @ [a]))"
      unfolding tl by blast
    show ?thesis
    proof (cases ?hit)
      case False
      with step have s2: "indicator_state (mach ?s'') = indicator_state (mach ?s')"
        by (simp del: deliver.simps)
      from False B have B': "boundaries ?t (length (as @ [a])) = ?B" by simp
      from True e2 t2 s2 st show ?thesis unfolding run B' by (simp del: deliver.simps)
    next
      case hit: True
      with B have B': "boundaries ?t (length (as @ [a])) = ?B + 1" by simp
      from hit step have s2: "indicator_state (mach ?s'') = (indicator_state (mach ?s'))
          \<lparr>connection := (if flash_times (indicator_state (mach ?s')) - 1 = 0 then 0
                          else connection (indicator_state (mach ?s'))),
          flash_times := flash_times (indicator_state (mach ?s')) - 1\<rparr>"
        by (simp del: deliver.simps)
      show ?thesis
      proof (cases "Suc ?B < flash_budget ?f")
        case True
        then have "?f - of_nat ?B - 1 \<noteq> 0" by (rule budget_not_reached)
        with s2 st have "indicator_state (mach ?s'') = ?st\<lparr>flash_times := ?f - of_nat ?B - 1\<rparr>"
          by simp
        then have "indicator_state (mach ?s'') = ?st\<lparr>flash_times := ?f - of_nat (?B + 1)\<rparr>"
          unfolding fl .
        with True e2 t2 show ?thesis unfolding run B' by (simp del: deliver.simps)
      next
        case False
        with \<open>?B < flash_budget ?f\<close> have "Suc ?B = flash_budget ?f" by simp
        then have "?f - of_nat ?B - 1 = 0" by (rule budget_reached)
        with s2 st have "connection (indicator_state (mach ?s'')) = 0" by simp
        with False show ?thesis unfolding run B' by (simp del: deliver.simps)
      qed
    qed
  qed
qed

section \<open>Battery and lock fields do not reach the BLE branch\<close>

lemma wbk_set_indicator_color:
  "set_indicator_color led_idx bits (with_battery_keylock b k m) =
   with_battery_keylock b k (set_indicator_color led_idx bits m)"
  by (cases "last_bits m = bits")
    (simp_all add: with_battery_keylock_def set_indicator_color_def Let_def upt_0_3 set_channel_log)

lemma wbk_fields [simp]:
  "connection (indicator_state (with_battery_keylock b k m)) = connection (indicator_state m)"
  "active_device (indicator_state (with_battery_keylock b k m)) = active_device (indicator_state m)"
  "flash_times (indicator_state (with_battery_keylock b k m)) = flash_times (indicator_state m)"
  "keylock (indicator_state (with_battery_keylock b k m)) = k"
  "battery (indicator_state (with_battery_keylock b k m)) = b"
  "led_timer_steps (with_battery_keylock b k m) = led_timer_steps m"
  "color_log (with_battery_keylock b k m) = color_log m"
  "led_log (with_battery_keylock b k m) = led_log m"
  "last_bits (with_battery_keylock b k m) = last_bits m"
  by (simp_all add: with_battery_keylock_def)

lemma wbk_ble_phase:
  "ble_phase led_idx a cb (with_battery_keylock b k m) =
   with_battery_keylock b k (ble_phase led_idx a cb m)"
  by (simp add: ble_phase_def Let_def wbk_set_indicator_color)

lemma wbk_timer:
  "(with_battery_keylock b k m)\<lparr>led_timer_steps := t\<rparr> =
   with_battery_keylock b k (m\<lparr>led_timer_steps := t\<rparr>)"
  by (simp add: with_battery_keylock_def)

lemma wbk_set_flash_times:
  "set_flash_times v (with_battery_keylock b k m) = with_battery_keylock b k (set_flash_times v m)"
  by (simp add: with_battery_keylock_def set_flash_times_def)

lemma wbk_set_connection:
  "set_connection v (with_battery_keylock b k m) = with_battery_keylock b k (set_connection v m)"
  by (simp add: with_battery_keylock_def set_connection_def)

lemma wbk_ble_mode:
  "ble_mode led_idx a (with_battery_keylock b k m) =
   map_outcome (with_battery_keylock b k) (ble_mode led_idx a m)"
  by (simp add: ble_mode_def Let_def wbk_set_flash_times wbk_ble_phase wbk_set_connection)

lemma wbk_battery_mode:
  "battery_mode led_idx (with_battery_keylock b k m) =
   with_battery_keylock b k (battery_mode led_idx m)"
  by (simp add: battery_mode_def wbk_set_indicator_color)


lemma low4_of_low5: "(t::u16) AND 0xf = (t AND 0x1f) AND 0xf"
  by (simp add: and.assoc)

lemma bit4_raw: "drop_bit 4 (t::u16) AND 1 = drop_bit 4 (t AND 0x1f)"
  by (simp add: bit_eq_iff bit_simps)

lemma bit4_of_low5: "(drop_bit 4 (t::u16) AND 3) AND 1 = drop_bit 4 (t AND 0x1f)"
  by (simp add: and.assoc bit4_raw [symmetric])

lemma red_on_offset:
  assumes "(t::u16) AND 0x1f = 0xf"
  shows "t AND 0xf = 0xf \<and> (drop_bit 4 t AND 3 = 0 \<or> drop_bit 4 t AND 3 = 2)"
proof
  show "t AND 0xf = 0xf" by (subst low4_of_low5) (simp add: assms)
  have "(drop_bit 4 t AND 3) AND 1 = 0"
    by (simp only: bit4_of_low5 assms) simp
  with phase_cases [of t] show "drop_bit 4 t AND 3 = 0 \<or> drop_bit 4 t AND 3 = 2"
    by auto
qed

lemma red_off_offset:
  assumes "(t::u16) AND 0x1f = 0x1f"
  shows "t AND 0xf = 0xf \<and> (drop_bit 4 t AND 3 = 1 \<or> drop_bit 4 t AND 3 = 3)"
proof
  show "t AND 0xf = 0xf" by (subst low4_of_low5) (simp add: assms)
  have "(drop_bit 4 t AND 3) AND 1 = 1"
    by (simp only: bit4_of_low5 assms) simp
  with phase_cases [of t] show "drop_bit 4 t AND 3 = 1 \<or> drop_bit 4 t AND 3 = 3"
    by auto
qed

lemma iter_ble_colors:
  assumes "connection (indicator_state m) \<noteq> 0" "active_device (indicator_state m) < 3"
  shows "color_log (machine_of (led_process_iter led_idx a m)) = color_log m @
     (if (led_timer_steps m + 1) AND 0xf = 0xf
      then ble_pattern (connection (indicator_state m)) (active_device (indicator_state m)) a
             (drop_bit 4 (led_timer_steps m + 1) AND 3)
      else [])"
proof (cases "(led_timer_steps m + 1) AND 0xf = 0xf")
  case True
  from iter_ble_boundary [OF assms True, of led_idx a] True show ?thesis by auto
next
  case False
  with assms show ?thesis by (simp add: iter_ble_quiet)
qed

lemma iter_ble_colors_any:
  assumes "connection (indicator_state m) \<noteq> 0"
  shows "color_log (machine_of (led_process_iter led_idx a m)) = color_log m @
     (if active_device (indicator_state m) < 3 \<and> (led_timer_steps m + 1) AND 0xf = 0xf
      then ble_pattern (connection (indicator_state m)) (active_device (indicator_state m)) a
             (drop_bit 4 (led_timer_steps m + 1) AND 3)
      else [])"
proof (cases "active_device (indicator_state m) < 3")
  case True
  with iter_ble_colors [OF assms True, of led_idx a] show ?thesis by simp
next
  case False
  then have "3 \<le> active_device (indicator_state m)" by (simp add: not_less)
  with assms False show ?thesis by (simp add: iter_ble_exit)
qed

lemma battery_mode_fields [simp]:
  "indicator_state (battery_mode led_idx m) = indicator_state m"
  "led_timer_steps (battery_mode led_idx m) = led_timer_steps m"
  "color_log (battery_mode led_idx m) = color_log m @ battery_pattern (led_timer_steps m)"
  by (simp_all add: battery_mode_def battery_pattern_def)












lemma red_writes:
  "[led_of led_idx 1 0, led_of led_idx 1 1, led_of led_idx 1 2] =
     [Led_on (led_idx 0), Led_off (led_idx 1), Led_off (led_idx 2)]"
  by (simp add: led_of_def)

lemma off_writes:
  "[led_of led_idx 0 0, led_of led_idx 0 1, led_of led_idx 0 2] =
     [Led_off (led_idx 0), Led_off (led_idx 1), Led_off (led_idx 2)]"
  by (simp add: led_of_def)




section \<open>Counting the boundaries\<close>

lemma mask4: "(15::u16) = mask 4" by (simp add: mask_eq_exp_minus_1)

lemma unat_and_0xf: "unat ((t::u16) AND 0xf) = unat t mod 16"
  apply (simp only: mask4 flip: take_bit_eq_mask)
  apply (simp only: unsigned_take_bit_eq)
  apply (simp add: take_bit_eq_mod)
  done

lemma and_0xf_iff: "(t::u16) AND 0xf = 0xf \<longleftrightarrow> unat t mod 16 = 15"
proof -
  have "(t AND 0xf = 0xf) = (unat (t AND 0xf) = unat (0xf::u16))"
    by (simp only: word_unat_eq_iff)
  then show ?thesis by (simp add: unat_and_0xf)
qed

lemma unat_plus_mod16: "unat ((t::u16) + of_nat n + 1) mod 16 = (unat t mod 16 + n + 1) mod 16"
proof -
  have "t + of_nat n + 1 = of_nat (unat t + (n + 1))" by simp
  then have "unat (t + of_nat n + 1) = (unat t + (n + 1)) mod 65536"
    by (simp only: unat_of_nat) simp
  moreover have "(unat t + (n + 1)) mod 65536 mod 16 = (unat t + (n + 1)) mod 16"
    by (rule mod_mod_cancel) simp
  moreover have "(unat t mod 16 + (n + 1)) mod 16 = (unat t + (n + 1)) mod 16"
    by (rule mod_add_left_eq)
  ultimately show ?thesis by (simp only: add.assoc)
qed

lemma div16_Suc: "Suc m div 16 = m div 16 + (if m mod 16 = 15 then 1 else 0)"
  by (simp add: div_Suc mod_Suc)

lemma boundaries_closed:
  "boundaries t n + (unat t mod 16 + 1) div 16 = (unat t mod 16 + n + 1) div 16"
proof (induction n)
  case 0
  show ?case by (simp add: boundaries_def)
next
  case (Suc n)
  have "(unat t mod 16 + Suc n + 1) div 16 = Suc (unat t mod 16 + n + 1) div 16" by simp
  also have "\<dots> = (unat t mod 16 + n + 1) div 16 +
      (if (unat t mod 16 + n + 1) mod 16 = 15 then 1 else 0)"
    by (rule div16_Suc)
  finally show ?case using Suc
    by (simp only: boundaries_Suc and_0xf_iff unat_plus_mod16)
qed

lemma boundaries_0: "boundaries 0 n = (n + 1) div 16"
  using boundaries_closed [of 0 n] by simp

section \<open>The BLE profile listener\<close>

text \<open>
  C2. The BLE profile update: a profile index above 3 leaves \<open>active_device\<close>,
  \<open>connection\<close> and \<open>flash_times\<close> (the whole state) as they were; an index in range
  with the profile connected sets \<open>active_device\<close> to the index, \<open>connection\<close> to 2
  (Connected) and \<open>flash_times\<close> to 12; an index in range with the profile not
  connected sets \<open>active_device\<close> to the index, \<open>connection\<close> to 1 (Pairing) and
  \<open>flash_times\<close> to 60. The other fields are never touched.
\<close>

theorem ble_active_profile_update_spec:
  "(3 < i \<longrightarrow> ble_active_profile_update i c st = st) \<and>
   (i \<le> 3 \<longrightarrow> ble_active_profile_update i True st =
      st\<lparr>connection := 2, active_device := i, flash_times := 12\<rparr>) \<and>
   (i \<le> 3 \<longrightarrow> ble_active_profile_update i False st =
      st\<lparr>connection := 1, active_device := i, flash_times := 60\<rparr>)"
  by (simp add: ble_active_profile_update_def Let_def not_less [symmetric])

theorem ble_active_profile_update_spec_witness:
  "ble_active_profile_update 4 True zero_state = zero_state \<and>
   ble_active_profile_update 2 True zero_state =
     zero_state\<lparr>connection := 2, active_device := 2, flash_times := 12\<rparr> \<and>
   ble_active_profile_update 0 False zero_state =
     zero_state\<lparr>connection := 1, active_device := 0, flash_times := 60\<rparr>"
  using ble_active_profile_update_spec [of 4 True zero_state]
    ble_active_profile_update_spec [of 2 True zero_state]
    ble_active_profile_update_spec [of 0 False zero_state]
  by simp

section \<open>The priority of the three modes\<close>

text \<open>
  C1. The priority of the modes is strict and exclusive. On every iteration of the
  sequencer: when \<open>connection\<close> is not 0 (Idle) the iteration is the BLE branch and
  nothing else, and its outcome is the same whatever \<open>battery\<close> and \<open>keylock\<close>
  hold (neither the battery blink nor the lock colour is rendered); otherwise, when
  \<open>battery\<close> is below 10, it is the low-battery branch and its outcome is the same
  whatever \<open>keylock\<close> holds; otherwise it is the lock branch. In particular, on every
  iteration with \<open>connection\<close> = 1 (Pairing) and \<open>battery\<close> = 5 the colour setter
  is called as the BLE pattern says, on a 16-tick boundary only (and not at all when the
  slot is 3 or more), and on the tick where the low-battery blink would switch red on
  (offset 15 of 32) it is called with 0 (off), not with red. This is so on each such
  iteration, hence for as long as \<open>connection\<close> stays Pairing, that is until
  \<open>flash_times\<close> reaches 0.
\<close>

theorem mode_priority:
  "(connection (indicator_state m) \<noteq> 0 \<longrightarrow>
      led_process_iter led_idx a m =
        ble_mode led_idx a (m\<lparr>led_timer_steps := led_timer_steps m + 1\<rparr>) \<and>
      led_process_iter led_idx a (with_battery_keylock b k m) =
        map_outcome (with_battery_keylock b k) (led_process_iter led_idx a m)) \<and>
   (connection (indicator_state m) = 0 \<and> battery (indicator_state m) < 10 \<longrightarrow>
      led_process_iter led_idx a m =
        Continue (battery_mode led_idx (m\<lparr>led_timer_steps := led_timer_steps m + 1\<rparr>)) \<and>
      led_process_iter led_idx a (with_battery_keylock (battery (indicator_state m)) k m) =
        map_outcome (with_battery_keylock (battery (indicator_state m)) k)
          (led_process_iter led_idx a m)) \<and>
   (connection (indicator_state m) = 0 \<and> \<not> battery (indicator_state m) < 10 \<longrightarrow>
      led_process_iter led_idx a m =
        Continue (lock_mode led_idx (m\<lparr>led_timer_steps := led_timer_steps m + 1\<rparr>))) \<and>
   (connection (indicator_state m) = 1 \<and> battery (indicator_state m) = 5 \<longrightarrow>
      color_log (machine_of (led_process_iter led_idx a m)) = color_log m @
        (if active_device (indicator_state m) < 3 \<and> (led_timer_steps m + 1) AND 0xf = 0xf
         then ble_pattern 1 (active_device (indicator_state m)) a
                (drop_bit 4 (led_timer_steps m + 1) AND 3)
         else []) \<and>
      ((led_timer_steps m + 1) AND 0x1f = 0xf \<longrightarrow>
         color_log (machine_of (led_process_iter led_idx a m)) = color_log m @
           (if active_device (indicator_state m) < 3 then [0] else [])))"
proof (intro conjI impI)
  assume c: "connection (indicator_state m) \<noteq> 0"
  then show "led_process_iter led_idx a m =
      ble_mode led_idx a (m\<lparr>led_timer_steps := led_timer_steps m + 1\<rparr>)"
    by (rule iter_ble)
  from c show "led_process_iter led_idx a (with_battery_keylock b k m) =
      map_outcome (with_battery_keylock b k) (led_process_iter led_idx a m)"
    by (simp add: iter_ble wbk_timer wbk_ble_mode)
next
  assume i: "connection (indicator_state m) = 0 \<and> battery (indicator_state m) < 10"
  then show "led_process_iter led_idx a m =
      Continue (battery_mode led_idx (m\<lparr>led_timer_steps := led_timer_steps m + 1\<rparr>))"
    by (simp add: iter_idle)
  from i show "led_process_iter led_idx a (with_battery_keylock (battery (indicator_state m)) k m) =
      map_outcome (with_battery_keylock (battery (indicator_state m)) k)
        (led_process_iter led_idx a m)"
    by (simp add: iter_idle wbk_timer wbk_battery_mode)
next
  assume "connection (indicator_state m) = 0 \<and> \<not> battery (indicator_state m) < 10"
  then show "led_process_iter led_idx a m =
      Continue (lock_mode led_idx (m\<lparr>led_timer_steps := led_timer_steps m + 1\<rparr>))"
    by (simp add: iter_idle)
next
  assume p: "connection (indicator_state m) = 1 \<and> battery (indicator_state m) = 5"
  then have c: "connection (indicator_state m) \<noteq> 0"
    by simp
  from iter_ble_colors_any [OF c, of led_idx a] p
  show col: "color_log (machine_of (led_process_iter led_idx a m)) = color_log m @
        (if active_device (indicator_state m) < 3 \<and> (led_timer_steps m + 1) AND 0xf = 0xf
         then ble_pattern 1 (active_device (indicator_state m)) a
                (drop_bit 4 (led_timer_steps m + 1) AND 3)
         else [])"
    by simp
  assume "(led_timer_steps m + 1) AND 0x1f = 0xf"
  from red_on_offset [OF this] col
  show "color_log (machine_of (led_process_iter led_idx a m)) = color_log m @
      (if active_device (indicator_state m) < 3 then [0] else [])"
    by (auto simp add: ble_pattern_def)
qed

theorem mode_priority_witness:
  "color_log (machine_of (led_process_iter of_nat True (machine_at 0 1 0 5 60 14))) =
     color_log (machine_at 0 1 0 5 60 14) @
       (if active_device (indicator_state (machine_at 0 1 0 5 60 14)) < 3 then [0] else []) \<and>
   led_process_iter of_nat True (with_battery_keylock 200 0 (machine_at 2 2 3 5 12 46)) =
     map_outcome (with_battery_keylock 200 0)
       (led_process_iter of_nat True (machine_at 2 2 3 5 12 46)) \<and>
   led_process_iter of_nat True (machine_at 0 0 0 5 0 14) =
     Continue (battery_mode of_nat ((machine_at 0 0 0 5 0 14)
       \<lparr>led_timer_steps := led_timer_steps (machine_at 0 0 0 5 0 14) + 1\<rparr>)) \<and>
   led_process_iter of_nat True (machine_at 2 0 0 50 0 14) =
     Continue (lock_mode of_nat ((machine_at 2 0 0 50 0 14)
       \<lparr>led_timer_steps := led_timer_steps (machine_at 2 0 0 50 0 14) + 1\<rparr>))"
proof -
  have h1: "connection (indicator_state (machine_at 0 1 0 5 60 14)) = 1 \<and>
      battery (indicator_state (machine_at 0 1 0 5 60 14)) = 5"
    and b1: "(led_timer_steps (machine_at 0 1 0 5 60 14) + 1) AND 0x1f = 0xf"
    by (simp_all add: machine_at_def)
  have h2: "connection (indicator_state (machine_at 2 2 3 5 12 46)) \<noteq> 0"
    by (simp add: machine_at_def)
  have h3: "connection (indicator_state (machine_at 0 0 0 5 0 14)) = 0 \<and>
      battery (indicator_state (machine_at 0 0 0 5 0 14)) < 10"
    by (simp add: machine_at_def)
  have h4: "connection (indicator_state (machine_at 2 0 0 50 0 14)) = 0 \<and>
      \<not> battery (indicator_state (machine_at 2 0 0 50 0 14)) < 10"
    by (simp add: machine_at_def)
  note p = mode_priority [of "machine_at 0 1 0 5 60 14" of_nat True 5 0, THEN conjunct2,
      THEN conjunct2, THEN conjunct2, THEN mp, OF h1, THEN conjunct2, THEN mp, OF b1]
    mode_priority [of "machine_at 2 2 3 5 12 46" of_nat True 200 0, THEN conjunct1, THEN mp,
      OF h2, THEN conjunct2]
    mode_priority [of "machine_at 0 0 0 5 0 14" of_nat True 5 0, THEN conjunct2, THEN conjunct1,
      THEN mp, OF h3, THEN conjunct1]
    mode_priority [of "machine_at 2 0 0 50 0 14" of_nat True 50 2, THEN conjunct2,
      THEN conjunct2, THEN conjunct1, THEN mp, OF h4]
  show ?thesis by (intro conjI) (rule p)+
qed

section \<open>The BLE pattern\<close>




section \<open>Lock mode\<close>

lemma capslock_test: "k AND CAPSLOCK_BIT \<noteq> 0 \<longleftrightarrow> bit k 1"
  by (simp only: CAPSLOCK_BIT_def bit_iff_and_push_bit_not_eq_0)

lemma lock_mode_fields [simp]:
  "indicator_state (lock_mode led_idx m) = indicator_state m"
  "led_timer_steps (lock_mode led_idx m) = led_timer_steps m"
  "color_log (lock_mode led_idx m) =
     color_log m @ [if bit (keylock (indicator_state m)) 1 then 0b101 else 0]"
  "last_bits (lock_mode led_idx m) = (if bit (keylock (indicator_state m)) 1 then 0b101 else 0)"
  by (simp_all add: lock_mode_def capslock_test)



section \<open>The keycode listener\<close>

text \<open>
  C9. For every keycode event: when the keycode is 0xAB the handler does exactly the
  BLE profile update with the profile index and the connected flag read at that moment,
  so the event changes the state as a BLE-profile-changed notification does; for any
  other keycode the state is left as it was.
\<close>

theorem zmk_handle_keycode_user_spec:
  "(key = 0xAB \<longrightarrow>
      zmk_handle_keycode_user key i c st = ble_active_profile_update i c st \<and>
      deliver led_idx s (Keycode_state_changed key i c) =
        deliver led_idx s (Ble_active_profile_changed i c)) \<and>
   (key \<noteq> 0xAB \<longrightarrow>
      zmk_handle_keycode_user key i c st = st \<and>
      deliver led_idx s (Keycode_state_changed key i c) = s)"
  by (simp add: zmk_handle_keycode_user_def on_state_def)

theorem zmk_handle_keycode_user_spec_witness:
  "zmk_handle_keycode_user 0xAB 2 True zero_state =
     zero_state\<lparr>connection := 2, active_device := 2, flash_times := 12\<rparr> \<and>
   zmk_handle_keycode_user 0x04 2 True zero_state = zero_state"
  using zmk_handle_keycode_user_spec [of "0xAB" 2 True zero_state of_nat power_on]
    zmk_handle_keycode_user_spec [of "0x04" 2 True zero_state of_nat power_on]
  by (simp add: ble_active_profile_update_def)

section \<open>The halt on an out-of-range slot\<close>

lemma exited_deliver:
  "led_exited s \<Longrightarrow>
   led_exited (deliver led_idx s e) \<and>
   color_log (mach (deliver led_idx s e)) = color_log (mach s) \<and>
   led_log (mach (deliver led_idx s e)) = led_log (mach s)"
  by (cases e) (simp_all add: on_state_def)

lemma run_Cons: "run led_idx (e # evs) s = run led_idx evs (deliver led_idx s e)"
  by (simp add: run_def)

lemma exited_run:
  "led_exited s \<Longrightarrow>
   led_exited (run led_idx evs s) \<and>
   color_log (mach (run led_idx evs s)) = color_log (mach s) \<and>
   led_log (mach (run led_idx evs s)) = led_log (mach s)"
proof (induction evs arbitrary: s)
  case Nil
  then show ?case by (simp add: run_def)
next
  case (Cons e evs)
  from exited_deliver [OF Cons.prems, of led_idx e] Cons.IH [of "deliver led_idx s e"]
  show ?case by (simp add: run_Cons)
qed

lemma exited_ticks: "led_exited s \<Longrightarrow> run led_idx (map Tick as) s = s"
  by (induction as) (simp_all add: run_def)

lemma run_ticks_thread:
  "run led_idx (map Tick as) \<lparr>mach = m, led_exited = False\<rparr> =
     (case led_process_thread led_idx as m of
        Continue m' \<Rightarrow> \<lparr>mach = m', led_exited = False\<rparr>
      | Return m' \<Rightarrow> \<lparr>mach = m', led_exited = True\<rparr>)"
proof (induction as arbitrary: m)
  case Nil
  show ?case by (simp add: run_def)
next
  case (Cons a as)
  show ?case
  proof (cases "led_process_iter led_idx a m")
    case (Continue m')
    with Cons [of m'] show ?thesis by (simp add: run_Cons)
  next
    case (Return m')
    then show ?thesis by (simp add: run_Cons exited_ticks)
  qed
qed

text \<open>
  C7. If on an iteration \<open>connection\<close> is not 0 and \<open>active_device\<close> is 3 or more, the
  loop of the sequencer returns at that iteration without calling the colour setter, and
  whatever events follow (wake-ups of the timer, notifications to the listeners, the
  start-up thread) the thread stays exited and neither the colour setter nor the LED
  driver is called again.
\<close>

theorem out_of_range_device_halts:
  assumes "\<not> led_exited s" "connection (indicator_state (mach s)) \<noteq> 0"
    "3 \<le> active_device (indicator_state (mach s))"
  shows "led_process_thread led_idx (a # as) (mach s) =
       Return ((mach s)\<lparr>led_timer_steps := led_timer_steps (mach s) + 1\<rparr>) \<and>
     led_exited (run led_idx (Tick a # evs) s) \<and>
     color_log (mach (run led_idx (Tick a # evs) s)) = color_log (mach s) \<and>
     led_log (mach (run led_idx (Tick a # evs) s)) = led_log (mach s)"
proof -
  have it: "led_process_iter led_idx a (mach s) =
      Return ((mach s)\<lparr>led_timer_steps := led_timer_steps (mach s) + 1\<rparr>)"
    using assms(2,3) by (rule iter_ble_exit)
  with assms(1) have "led_exited (deliver led_idx s (Tick a))"
    and "color_log (mach (deliver led_idx s (Tick a))) = color_log (mach s)"
    and "led_log (mach (deliver led_idx s (Tick a))) = led_log (mach s)"
    by simp_all
  with exited_run [of "deliver led_idx s (Tick a)" led_idx evs] it show ?thesis
    by (simp add: run_Cons del: deliver.simps)
qed

theorem out_of_range_device_halts_witness:
  "led_exited (run of_nat [Tick True, Ble_active_profile_changed 0 False, Tick True, Tick True]
      \<lparr>mach = machine_at 0 1 3 50 60 14, led_exited = False\<rparr>) \<and>
   color_log (mach (run of_nat [Tick True, Ble_active_profile_changed 0 False, Tick True, Tick True]
      \<lparr>mach = machine_at 0 1 3 50 60 14, led_exited = False\<rparr>)) = []"
proof -
  have h: "\<not> led_exited \<lparr>mach = machine_at 0 1 3 50 60 14, led_exited = False\<rparr>"
    "connection (indicator_state (mach \<lparr>mach = machine_at 0 1 3 50 60 14, led_exited = False\<rparr>)) \<noteq> 0"
    "3 \<le> active_device (indicator_state (mach \<lparr>mach = machine_at 0 1 3 50 60 14, led_exited = False\<rparr>))"
    by (simp_all add: machine_at_def)
  from out_of_range_device_halts [OF h, of of_nat True "[True]"
      "[Ble_active_profile_changed 0 False, Tick True, Tick True]"]
  show ?thesis by (simp add: machine_at_def)
qed


section \<open>The countdown of the BLE mode\<close>

lemma idle_run:
  "connection (indicator_state (mach s)) = 0 \<Longrightarrow>
   connection (indicator_state (mach (run led_idx (map Tick as) s))) = 0"
proof (induction as arbitrary: s)
  case Nil
  then show ?case by (simp add: run_def)
next
  case (Cons a as)
  from Cons.prems have "connection (indicator_state (mach (deliver led_idx s (Tick a)))) = 0"
    by (rule deliver_tick_idle)
  then have "connection (indicator_state (mach (run led_idx (map Tick as) (deliver led_idx s (Tick a))))) = 0"
    by (rule Cons.IH)
  then show ?case by (simp add: run_Cons del: deliver.simps)
qed

text \<open>
  C4. In BLE mode (\<open>connection\<close> not 0, slot below 3) an iteration on a 16-tick
  boundary decrements \<open>flash_times\<close> by exactly one, and sets \<open>connection\<close> to 0
  exactly when the decremented counter is 0; an iteration off the boundary leaves the
  state as it was. When \<open>flash_times\<close> is 1 at a boundary, \<open>connection\<close> is 0 after
  that iteration and after any number of further iterations, each of which is the
  low-battery or the lock branch. Over any run of iterations, as long as fewer
  boundaries have passed than the countdown lasts, \<open>connection\<close> is unchanged and
  \<open>flash_times\<close> has gone down by the number of boundaries; from then on
  \<open>connection\<close> is 0.
\<close>

theorem flash_times_countdown:
  assumes "\<not> led_exited s" "connection (indicator_state (mach s)) \<noteq> 0"
    "active_device (indicator_state (mach s)) < 3"
  shows "indicator_state (mach (deliver led_idx s (Tick a))) =
      (if (led_timer_steps (mach s) + 1) AND 0xf = 0xf
       then (indicator_state (mach s))
         \<lparr>connection := (if flash_times (indicator_state (mach s)) - 1 = 0 then 0
                          else connection (indicator_state (mach s))),
          flash_times := flash_times (indicator_state (mach s)) - 1\<rparr>
       else indicator_state (mach s)) \<and>
    ((led_timer_steps (mach s) + 1) AND 0xf = 0xf \<and> flash_times (indicator_state (mach s)) = 1 \<longrightarrow>
      (let s2 = run led_idx (Tick a # map Tick as) s in
       connection (indicator_state (mach s2)) = 0 \<and>
       led_process_iter led_idx a' (mach s2) =
         Continue (if battery (indicator_state (mach s2)) < 10
                   then battery_mode led_idx ((mach s2)\<lparr>led_timer_steps := led_timer_steps (mach s2) + 1\<rparr>)
                   else lock_mode led_idx ((mach s2)\<lparr>led_timer_steps := led_timer_steps (mach s2) + 1\<rparr>)))) \<and>
    (boundaries (led_timer_steps (mach s)) (length as) < flash_budget (flash_times (indicator_state (mach s))) \<longrightarrow>
      connection (indicator_state (mach (run led_idx (map Tick as) s))) =
        connection (indicator_state (mach s)) \<and>
      flash_times (indicator_state (mach (run led_idx (map Tick as) s))) =
        flash_times (indicator_state (mach s)) - of_nat (boundaries (led_timer_steps (mach s)) (length as))) \<and>
    (flash_budget (flash_times (indicator_state (mach s))) \<le> boundaries (led_timer_steps (mach s)) (length as) \<longrightarrow>
      connection (indicator_state (mach (run led_idx (map Tick as) s))) = 0)"
proof (intro conjI impI)
  note step = deliver_tick_ble [OF assms, of led_idx a]
  from step show "indicator_state (mach (deliver led_idx s (Tick a))) =
      (if (led_timer_steps (mach s) + 1) AND 0xf = 0xf
       then (indicator_state (mach s))
         \<lparr>connection := (if flash_times (indicator_state (mach s)) - 1 = 0 then 0
                          else connection (indicator_state (mach s))),
          flash_times := flash_times (indicator_state (mach s)) - 1\<rparr>
       else indicator_state (mach s))"
    by blast
  assume "(led_timer_steps (mach s) + 1) AND 0xf = 0xf \<and> flash_times (indicator_state (mach s)) = 1"
  with step have "connection (indicator_state (mach (deliver led_idx s (Tick a)))) = 0"
    by (simp del: deliver.simps)
  then have z: "connection (indicator_state (mach (run led_idx (Tick a # map Tick as) s))) = 0"
    unfolding run_Cons by (rule idle_run)
  from iter_idle [OF z, of led_idx a'] z
  show "let s2 = run led_idx (Tick a # map Tick as) s in
       connection (indicator_state (mach s2)) = 0 \<and>
       led_process_iter led_idx a' (mach s2) =
         Continue (if battery (indicator_state (mach s2)) < 10
                   then battery_mode led_idx ((mach s2)\<lparr>led_timer_steps := led_timer_steps (mach s2) + 1\<rparr>)
                   else lock_mode led_idx ((mach s2)\<lparr>led_timer_steps := led_timer_steps (mach s2) + 1\<rparr>))"
    unfolding Let_def by (intro conjI)
next
  assume b: "boundaries (led_timer_steps (mach s)) (length as) < flash_budget (flash_times (indicator_state (mach s)))"
  with ble_countdown [OF assms, of as led_idx]
  have st: "indicator_state (mach (run led_idx (map Tick as) s)) =
        (indicator_state (mach s))\<lparr>flash_times := flash_times (indicator_state (mach s))
            - of_nat (boundaries (led_timer_steps (mach s)) (length as))\<rparr>"
    by blast
  from st show "connection (indicator_state (mach (run led_idx (map Tick as) s))) =
        connection (indicator_state (mach s))" by simp
  from st show "flash_times (indicator_state (mach (run led_idx (map Tick as) s))) =
        flash_times (indicator_state (mach s)) - of_nat (boundaries (led_timer_steps (mach s)) (length as))"
    by simp
next
  assume "flash_budget (flash_times (indicator_state (mach s))) \<le> boundaries (led_timer_steps (mach s)) (length as)"
  with ble_countdown [OF assms, of as led_idx]
  show "connection (indicator_state (mach (run led_idx (map Tick as) s))) = 0"
    by blast
qed


theorem flash_times_countdown_witness:
  "indicator_state (mach (deliver of_nat \<lparr>mach = machine_at 0 2 0 50 12 14, led_exited = False\<rparr> (Tick True))) =
     \<lparr>keylock = 0, connection = 2, active_device = 0, battery = 50, flash_times = 11\<rparr> \<and>
   connection (indicator_state (mach (run of_nat [Tick True, Tick True, Tick True]
     \<lparr>mach = machine_at 0 1 0 50 1 14, led_exited = False\<rparr>))) = 0"
proof -
  let ?s = "\<lparr>mach = machine_at 0 2 0 50 12 14, led_exited = False\<rparr>"
  let ?s1 = "\<lparr>mach = machine_at 0 1 0 50 1 14, led_exited = False\<rparr>"
  have h: "\<not> led_exited ?s" "connection (indicator_state (mach ?s)) \<noteq> 0"
    "active_device (indicator_state (mach ?s)) < 3"
    by (simp_all add: machine_at_def)
  have h1: "\<not> led_exited ?s1" "connection (indicator_state (mach ?s1)) \<noteq> 0"
    "active_device (indicator_state (mach ?s1)) < 3"
    by (simp_all add: machine_at_def)
  have b1: "(led_timer_steps (mach ?s1) + 1) AND 0xf = 0xf \<and> flash_times (indicator_state (mach ?s1)) = 1"
    by (simp add: machine_at_def)
  from flash_times_countdown [OF h, of of_nat True "[]" True, THEN conjunct1]
  have "indicator_state (mach (deliver of_nat ?s (Tick True))) =
     \<lparr>keylock = 0, connection = 2, active_device = 0, battery = 50, flash_times = 11\<rparr>"
    by (simp add: machine_at_def del: deliver.simps)
  moreover
  from flash_times_countdown [OF h1, of of_nat True "[True, True]" True, THEN conjunct2,
      THEN conjunct1, THEN mp, OF b1]
  have "connection (indicator_state (mach (run of_nat [Tick True, Tick True, Tick True] ?s1))) = 0"
    by (simp add: Let_def del: deliver.simps)
  ultimately show ?thesis by (intro conjI)
qed

section \<open>The low-battery blink\<close>






section \<open>The countdown after boot\<close>

lemma booted_eq: "booted led_idx = \<lparr>mach = machine_at 0 1 0 111 0 5, led_exited = False\<rparr>"
  by (simp add: booted_def run_def power_on_def boot_def zero_state_def machine_at_def
      led_process_iter_def battery_mode_def Let_def on_state_def klink_indicator_init_thread_def)

lemma boundaries_5: "boundaries 5 n = (n + 6) div 16"
proof -
  have u: "unat (5::u16) mod 16 = 5" by simp
  from boundaries_closed [of 5 n] show ?thesis unfolding u by (simp add: ac_simps)
qed

lemma booted_facts:
  "\<not> led_exited (booted led_idx)"
  "connection (indicator_state (mach (booted led_idx))) \<noteq> 0"
  "active_device (indicator_state (mach (booted led_idx))) < 3"
  "led_timer_steps (mach (booted led_idx)) = 5"
  "flash_times (indicator_state (mach (booted led_idx))) = 0"
  "connection (indicator_state (mach (booted led_idx))) = 1"
  by (simp_all add: booted_eq machine_at_def)

text \<open>
  C10, as stated, gives the boot animation 255 quarter-cycles. After boot
  \<open>flash_times\<close> is 0 and \<open>connection\<close> is 1. When 255 boundaries have passed since
  (4074 iterations after the start-up thread), \<open>connection\<close> is still 1 and
  \<open>flash_times\<close> is 1: the animation is not over, one more boundary is animated.
\<close>

theorem boot_animation_255_counterexample:
  "boundaries (led_timer_steps (mach (booted of_nat))) 4074 = 255 \<and>
   connection (indicator_state (mach (run of_nat (map Tick (replicate 4074 True)) (booted of_nat)))) = 1 \<and>
   flash_times (indicator_state (mach (run of_nat (map Tick (replicate 4074 True)) (booted of_nat)))) = 1"
proof -
  have b: "boundaries (led_timer_steps (mach (booted of_nat))) (length (replicate 4074 True)) = 255"
    by (simp add: booted_facts boundaries_5)
  then have "boundaries (led_timer_steps (mach (booted of_nat))) (length (replicate 4074 True))
      < flash_budget (flash_times (indicator_state (mach (booted of_nat))))"
    by (simp add: booted_facts flash_budget_def)
  with ble_countdown [OF booted_facts(1-3), of of_nat "replicate 4074 True"]
  have "indicator_state (mach (run of_nat (map Tick (replicate 4074 True)) (booted of_nat))) =
      (indicator_state (mach (booted of_nat)))\<lparr>flash_times := flash_times (indicator_state (mach (booted of_nat)))
            - of_nat (boundaries (led_timer_steps (mach (booted of_nat))) (length (replicate 4074 True)))\<rparr>"
    by blast
  with b show ?thesis by (simp add: booted_facts)
qed

text \<open>
  C10, amended. \<open>flash_times\<close> is an 8-bit counter that is decremented before it is
  compared with 0: a boundary reached in BLE mode with \<open>flash_times\<close> = 0 wraps it to
  255 and does not reset \<open>connection\<close>, and from such a state \<open>connection\<close> becomes 0
  exactly when 256 boundaries have passed (the one that wraps and 255 more). The
  start-up thread sets \<open>connection\<close> to 1 and leaves \<open>flash_times\<close> at 0, so with no
  profile event the boot animation lasts 256 boundaries, not 60 and not 255: after boot
  \<open>connection\<close> is 1 for the first 4089 iterations (255 boundaries) and 0 from the
  4090th (the 256th boundary) on.
\<close>

theorem flash_times_wraps:
  "(\<not> led_exited s \<and> connection (indicator_state (mach s)) \<noteq> 0 \<and>
    active_device (indicator_state (mach s)) < 3 \<and> flash_times (indicator_state (mach s)) = 0 \<longrightarrow>
      ((led_timer_steps (mach s) + 1) AND 0xf = 0xf \<longrightarrow>
         indicator_state (mach (deliver led_idx s (Tick a))) =
           (indicator_state (mach s))\<lparr>flash_times := 255\<rparr>) \<and>
      connection (indicator_state (mach (run led_idx (map Tick as) s))) =
        (if boundaries (led_timer_steps (mach s)) (length as) < 256
         then connection (indicator_state (mach s)) else 0)) \<and>
   klink_indicator_init_thread zero_state = zero_state\<lparr>connection := 1, battery := 111\<rparr> \<and>
   connection (indicator_state (mach (booted led_idx))) = 1 \<and>
   flash_times (indicator_state (mach (booted led_idx))) = 0 \<and>
   boundaries (led_timer_steps (mach (booted led_idx))) 4089 = 255 \<and>
   boundaries (led_timer_steps (mach (booted led_idx))) 4090 = 256 \<and>
   connection (indicator_state (mach (run led_idx (map Tick as) (booted led_idx)))) =
     (if length as < 4090 then 1 else 0)"
proof (intro conjI impI)
  assume h: "\<not> led_exited s \<and> connection (indicator_state (mach s)) \<noteq> 0 \<and>
    active_device (indicator_state (mach s)) < 3 \<and> flash_times (indicator_state (mach s)) = 0"
  then have a: "\<not> led_exited s" "connection (indicator_state (mach s)) \<noteq> 0"
    "active_device (indicator_state (mach s)) < 3" and f: "flash_times (indicator_state (mach s)) = 0"
    by simp_all
  from ble_countdown [OF a, of as led_idx] f
  show "connection (indicator_state (mach (run led_idx (map Tick as) s))) =
        (if boundaries (led_timer_steps (mach s)) (length as) < 256
         then connection (indicator_state (mach s)) else 0)"
    by (cases "boundaries (led_timer_steps (mach s)) (length as) < 256")
      (simp_all add: flash_budget_def)
  assume "(led_timer_steps (mach s) + 1) AND 0xf = 0xf"
  with deliver_tick_ble [OF a, of led_idx a] f
  show "indicator_state (mach (deliver led_idx s (Tick a))) =
           (indicator_state (mach s))\<lparr>flash_times := 255\<rparr>"
    by (simp del: deliver.simps)
next
  show "klink_indicator_init_thread zero_state = zero_state\<lparr>connection := 1, battery := 111\<rparr>"
    by (simp add: klink_indicator_init_thread_def)
  show "connection (indicator_state (mach (booted led_idx))) = 1"
    and "flash_times (indicator_state (mach (booted led_idx))) = 0"
    by (simp_all add: booted_facts)
  show "boundaries (led_timer_steps (mach (booted led_idx))) 4089 = 255"
    and "boundaries (led_timer_steps (mach (booted led_idx))) 4090 = 256"
    by (simp_all add: booted_facts boundaries_5)
  have "boundaries (led_timer_steps (mach (booted led_idx))) (length as) < 256 \<longleftrightarrow> length as < 4090"
    by (simp add: booted_facts boundaries_5 div_less_iff_less_mult)
  with ble_countdown [OF booted_facts(1-3), of led_idx as led_idx]
  show "connection (indicator_state (mach (run led_idx (map Tick as) (booted led_idx)))) =
     (if length as < 4090 then 1 else 0)"
    by (cases "length as < 4090") (simp_all add: booted_facts flash_budget_def)
qed

theorem flash_times_wraps_witness:
  "indicator_state (mach (deliver of_nat \<lparr>mach = machine_at 0 1 0 111 0 14, led_exited = False\<rparr> (Tick True))) =
     \<lparr>keylock = 0, connection = 1, active_device = 0, battery = 111, flash_times = 255\<rparr>"
proof -
  let ?s = "\<lparr>mach = machine_at 0 1 0 111 0 14, led_exited = False\<rparr>"
  have h: "\<not> led_exited ?s \<and> connection (indicator_state (mach ?s)) \<noteq> 0 \<and>
    active_device (indicator_state (mach ?s)) < 3 \<and> flash_times (indicator_state (mach ?s)) = 0"
    and b: "(led_timer_steps (mach ?s) + 1) AND 0xf = 0xf"
    by (simp_all add: machine_at_def)
  from flash_times_wraps [of ?s of_nat True "[]", THEN conjunct1, THEN mp, OF h, THEN conjunct1,
      THEN mp, OF b]
  show ?thesis by (simp add: machine_at_def del: deliver.simps)
qed


end
